theory Spec2Isabelle
  imports Main "HOL-Library.Char_ord" "HOL-Library.List_Lexorder"
begin

section \<open>The configuration converter: values, text helpers\<close>

text \<open>
  The program is \<^verbatim>\<open>src/config_converter.py\<close>: class \<^verbatim>\<open>ConfigParser\<close> reads the
  configuration language into Python values and class \<^verbatim>\<open>TOMLConverter\<close> prints them.

  Modelling decisions.
  \<^item> A Python \<^verbatim>\<open>str\<close> is a \<^typ>\<open>string\<close>. A \<^typ>\<open>char\<close> is read as the code point
    of the same number, so the texts covered are those over code points 0 to 255; the
    character predicates below are Python's, restricted to that range.
  \<^item> The values the parser builds are Python objects of six runtime types. The code has
    one type \<^verbatim>\<open>str\<close> for what the specification calls String and Identifier, so both are
    \<open>PStr\<close> here.
  \<^item> A \<^verbatim>\<open>float\<close> is kept as the literal it was read from (\<open>PFloat\<close>); binary
    floating point is not modelled, and the text Python prints for such a float is a
    parameter \<open>fstr\<close> of the printing functions.
  \<^item> A \<^verbatim>\<open>dict\<close> is an association list in insertion order, with Python's update
    (\<open>dict_set\<close>): an existing key keeps its place, a new key goes to the end.
  \<^item> \<^verbatim>\<open>int()\<close> raises \<^verbatim>\<open>ValueError\<close> on a digit string that \<^verbatim>\<open>isdigit()\<close> accepts but
    that is not decimal; this is the only exception of the parser that is modelled, as
    the left summand of a sum type. The interpreter's resource limits (recursion depth,
    length of integer literals) are not modelled.
\<close>

datatype pyval =
    PStr string
  | PInt int
  | PFloat string
  | PBool bool
  | PList "pyval list"
  | PDict "(string \<times> pyval) list"

type_synonym pydict = "(string \<times> pyval) list"

datatype error = ValueError

abbreviation DQ :: char where "DQ \<equiv> CHR 0x22"
abbreviation SQ :: char where "SQ \<equiv> CHR 0x27"
abbreviation NL :: char where "NL \<equiv> CHR 0x0A"
abbreviation BSL :: char where "BSL \<equiv> CHR 0x5C"

subsection \<open>Dictionaries\<close>

text \<open>\<^verbatim>\<open>d[k]\<close> and \<^verbatim>\<open>k in d\<close> read the association list; \<^verbatim>\<open>d[k] = v\<close> is \<open>dict_set\<close>.\<close>

definition dict_get :: "pydict \<Rightarrow> string \<Rightarrow> pyval option" where
  "dict_get d k = map_of d k"

definition dict_has :: "pydict \<Rightarrow> string \<Rightarrow> bool" where
  "dict_has d k = (map_of d k \<noteq> None)"

fun dict_set :: "pydict \<Rightarrow> string \<Rightarrow> pyval \<Rightarrow> pydict" where
  "dict_set [] k v = [(k, v)]"
| "dict_set ((k', v') # d) k v =
     (if k' = k then (k, v) # d else (k', v') # dict_set d k v)"

subsection \<open>String methods\<close>

text \<open>
  \<^verbatim>\<open>str.isspace\<close>, which \<^verbatim>\<open>strip\<close>, \<^verbatim>\<open>rstrip\<close> and the pattern \<^verbatim>\<open>\s\<close> use: below 256
  the white space is 9 to 13, 28 to 32, 133 and 160.
\<close>

definition isspace :: "char \<Rightarrow> bool" where
  "isspace c = (c \<in> set [CHR 0x09, CHR 0x0A, CHR 0x0B, CHR 0x0C, CHR 0x0D,
                          CHR 0x1C, CHR 0x1D, CHR 0x1E, CHR 0x1F, CHR 0x20,
                          CHR 0x85, CHR 0xA0])"

definition lstrip :: "string \<Rightarrow> string" where
  "lstrip s = dropWhile isspace s"

definition rstrip :: "string \<Rightarrow> string" where
  "rstrip s = rev (dropWhile isspace (rev s))"

definition strip :: "string \<Rightarrow> string" where
  "strip s = rstrip (lstrip s)"

definition startswith :: "string \<Rightarrow> char \<Rightarrow> bool" where
  "startswith s c = (case s of [] \<Rightarrow> False | x # _ \<Rightarrow> x = c)"

definition endswith :: "string \<Rightarrow> char \<Rightarrow> bool" where
  "endswith s c = (s \<noteq> [] \<and> last s = c)"

text \<open>\<^verbatim>\<open>s[1:-1]\<close>: a string of length one gives the empty string.\<close>

definition slice_inner :: "string \<Rightarrow> string" where
  "slice_inner s = butlast (tl s)"

text \<open>\<^verbatim>\<open>s.split(sep)\<close> for a separator of one character: always at least one piece.\<close>

fun split_on :: "char \<Rightarrow> string \<Rightarrow> string list" where
  "split_on sep [] = [[]]"
| "split_on sep (c # cs) =
     (if c = sep then [] # split_on sep cs
      else (case split_on sep cs of [] \<Rightarrow> [[c]] | p # ps \<Rightarrow> (c # p) # ps))"

text \<open>\<^verbatim>\<open>s.split(sep, 1)\<close> where \<^verbatim>\<open>sep in s\<close>: the text before the first \<open>sep\<close> and the rest.\<close>

definition split_first :: "char \<Rightarrow> string \<Rightarrow> string \<times> string" where
  "split_first sep s = (takeWhile (\<lambda>c. c \<noteq> sep) s, tl (dropWhile (\<lambda>c. c \<noteq> sep) s))"

text \<open>\<^verbatim>\<open>sep.join(xs)\<close>.\<close>

fun join :: "string \<Rightarrow> string list \<Rightarrow> string" where
  "join sep [] = []"
| "join sep [x] = x"
| "join sep (x # y # ys) = x @ sep @ join sep (y # ys)"

text \<open>
  \<^verbatim>\<open>str.isdigit\<close>: below 256 the digits are \<^verbatim>\<open>0\<close> to \<^verbatim>\<open>9\<close> and the superscripts
  178, 179 and 185. \<^verbatim>\<open>int()\<close> reads the decimal digits only and raises on the others.
\<close>

definition isdecimal_char :: "char \<Rightarrow> bool" where
  "isdecimal_char c = (c \<in> set ''0123456789'')"

definition isdigit_char :: "char \<Rightarrow> bool" where
  "isdigit_char c = (isdecimal_char c \<or> c \<in> set [CHR 0xB2, CHR 0xB3, CHR 0xB9])"

definition isdigit :: "string \<Rightarrow> bool" where
  "isdigit s = (s \<noteq> [] \<and> list_all isdigit_char s)"

definition digit_val :: "char \<Rightarrow> int" where
  "digit_val c = int (of_char c) - 48"

fun int_digits :: "int \<Rightarrow> string \<Rightarrow> int" where
  "int_digits acc [] = acc"
| "int_digits acc (c # cs) = int_digits (acc * 10 + digit_val c) cs"

definition py_int :: "string \<Rightarrow> error + pyval" where
  "py_int s = (if list_all isdecimal_char s then Inr (PInt (int_digits 0 s)) else Inl ValueError)"

text \<open>
  \<^verbatim>\<open>re.match(r'^-?\d+\.\d+$', s)\<close>: an optional minus, decimal digits, a dot, decimal
  digits; \<^verbatim>\<open>$\<close> also matches before a newline that ends the string.
\<close>

definition float_body :: "string \<Rightarrow> bool" where
  "float_body s =
     (let t = (if startswith s CHR ''-'' then tl s else s);
          a = takeWhile isdecimal_char t;
          r = dropWhile isdecimal_char t
      in a \<noteq> [] \<and> startswith r CHR ''.'' \<and> tl r \<noteq> [] \<and> list_all isdecimal_char (tl r))"

definition float_re :: "string \<Rightarrow> bool" where
  "float_re s = (float_body s \<or> (endswith s NL \<and> float_body (butlast s)))"

text \<open>\<^verbatim>\<open>str.lower\<close>: below 256, the capitals A to Z and 192 to 222 without 215.\<close>

definition lower_char :: "char \<Rightarrow> char" where
  "lower_char c =
     (let n = of_char c :: nat
      in if (65 \<le> n \<and> n \<le> 90) \<or> (192 \<le> n \<and> n \<le> 222 \<and> n \<noteq> 215) then char_of (n + 32) else c)"

definition lower :: "string \<Rightarrow> string" where
  "lower s = map lower_char s"


section \<open>ConfigParser\<close>

subsection \<open>clean_text\<close>

text \<open>Lines 18 to 20: cut the line at the first \<^verbatim>\<open>#\<close>, then \<^verbatim>\<open>rstrip\<close>.\<close>

definition clean_line :: "string \<Rightarrow> string" where
  "clean_line line =
     rstrip (if CHR ''#'' \<in> set line then takeWhile (\<lambda>c. c \<noteq> CHR ''#'') line else line)"

text \<open>The \<^verbatim>\<open>for\<close> loop of lines 17 to 22, with the list \<^verbatim>\<open>lines\<close> as accumulator.\<close>

fun clean_loop :: "string list \<Rightarrow> string list \<Rightarrow> string list" where
  "clean_loop lines [] = lines"
| "clean_loop lines (l # ls) =
     (let line = clean_line l
      in if line \<noteq> [] then clean_loop (lines @ [line]) ls else clean_loop lines ls)"

definition clean_text :: "string \<Rightarrow> string" where
  "clean_text text = join [NL] (clean_loop [] (split_on NL text))"

subsection \<open>parse_value\<close>

text \<open>
  The \<^verbatim>\<open>for char in content\<close> loop of lines 65 to 84. Its state is the five variables
  of the source. The loop is run on the texts of the items: where the source appends
  \<^verbatim>\<open>self.parse_value(current.strip())\<close>, \<open>scan_items\<close> appends \<open>strip current\<close>, and
  \<open>parse_value\<close> below parses the collected texts in the same order.
\<close>

fun scan_items ::
  "string list \<Rightarrow> string \<Rightarrow> bool \<Rightarrow> char option \<Rightarrow> int \<Rightarrow> string \<Rightarrow> string list" where
  "scan_items items current in_quotes quote_char brace_count [] =
     (if strip current \<noteq> [] then items @ [strip current] else items)"
| "scan_items items current in_quotes quote_char brace_count (c # cs) =
     (if (c = SQ \<or> c = DQ) \<and> \<not> in_quotes then
        scan_items items (current @ [c]) True (Some c) brace_count cs
      else if Some c = quote_char \<and> in_quotes then
        scan_items items (current @ [c]) False None brace_count cs
      else if c = CHR ''{'' \<and> \<not> in_quotes then
        scan_items items (current @ [c]) in_quotes quote_char (brace_count + 1) cs
      else if c = CHR ''}'' \<and> \<not> in_quotes then
        scan_items items (current @ [c]) in_quotes quote_char (brace_count - 1) cs
      else if c = CHR '','' \<and> \<not> in_quotes \<and> brace_count = 0 then
        scan_items (items @ [strip current]) [] in_quotes quote_char brace_count cs
      else
        scan_items items (current @ [c]) in_quotes quote_char brace_count cs)"

definition split_items :: "string \<Rightarrow> string list" where
  "split_items content = scan_items [] [] False None 0 content"

text \<open>The results of the items, in order; the first exception is the one raised.\<close>

fun collect :: "(error + 'a) list \<Rightarrow> error + 'a list" where
  "collect [] = Inr []"
| "collect (Inl e # rs) = Inl e"
| "collect (Inr x # rs) = (case collect rs of Inl e \<Rightarrow> Inl e | Inr xs \<Rightarrow> Inr (x # xs))"

text \<open>Lines 31 and 32: a final \<^verbatim>\<open>;\<close> is cut and the text stripped again.\<close>

definition unsemi :: "string \<Rightarrow> string" where
  "unsemi value_str =
     (if endswith value_str CHR '';'' then strip (butlast value_str) else value_str)"

text \<open>The tests of lines 35, 36 and 54.\<close>

definition quoted :: "string \<Rightarrow> bool" where
  "quoted value_str =
     ((startswith value_str DQ \<and> endswith value_str DQ) \<or>
      (startswith value_str SQ \<and> endswith value_str SQ))"

definition braced :: "string \<Rightarrow> bool" where
  "braced value_str = (startswith value_str CHR ''{'' \<and> endswith value_str CHR ''}'')"

lemma length_strip: "length (strip s) \<le> length s"
proof -
  have "length (rstrip (lstrip s)) \<le> length (lstrip s)"
    unfolding rstrip_def using length_dropWhile_le [of isspace "rev (lstrip s)"] by simp
  also have "\<dots> \<le> length s"
    unfolding lstrip_def by (rule length_dropWhile_le)
  finally show ?thesis by (simp add: strip_def)
qed

lemma length_unsemi: "length (unsemi s) \<le> length s"
  using length_strip [of "butlast s"] by (auto simp: unsemi_def)

lemma length_slice_inner: "s \<noteq> [] \<Longrightarrow> length (slice_inner s) < length s"
  by (cases s) (simp_all add: slice_inner_def)

lemma scan_items_length:
  "x \<in> set (scan_items items cur q qc b cs) \<Longrightarrow>
     x \<in> set items \<or> length x \<le> length cur + length cs"
proof (induction cs arbitrary: items cur q qc b)
  case Nil
  then show ?case using length_strip [of cur] by (auto split: if_splits)
next
  case (Cons c cs)
  have a: "x \<in> set (scan_items items (cur @ [d]) q' qc' b' cs) \<Longrightarrow>
      x \<in> set items \<or> length x \<le> Suc (length cur + length cs)" for q' qc' b' d
    using Cons.IH [of items "cur @ [d]" q' qc' b'] by simp
  have b: "x \<in> set (scan_items (items @ [strip cur]) [] q' qc' b' cs) \<Longrightarrow>
      x \<in> set items \<or> length x \<le> Suc (length cur + length cs)" for q' qc' b'
    using Cons.IH [of "items @ [strip cur]" "[]" q' qc' b'] length_strip [of cur] by auto
  from Cons.prems show ?case
    by (simp split: if_splits) (erule a b)+
qed

lemma split_items_length: "x \<in> set (split_items content) \<Longrightarrow> length x \<le> length content"
  using scan_items_length [of x "[]" "[]" False None 0 content] by (simp add: split_items_def)

text \<open>
  \<^verbatim>\<open>parse_value\<close>, lines 25 to 93, with \<^verbatim>\<open>self.constants\<close> as the first argument. The
  branches are in the order of the source. The recursive calls are on the items of an
  array, which are shorter than the text.
\<close>

function parse_value :: "pydict \<Rightarrow> string \<Rightarrow> error + pyval" where
  "parse_value constants s =
     (if strip s = [] then Inr (PStr [])
      else let value_str = unsemi (strip s) in
        if quoted value_str then Inr (PStr (slice_inner value_str))
        else if isdigit value_str then py_int value_str
        else if float_re value_str then Inr (PFloat value_str)
        else if lower value_str = ''true'' then Inr (PBool True)
        else if lower value_str = ''false'' then Inr (PBool False)
        else if braced value_str then
          (let content = strip (slice_inner value_str) in
           if content = [] then Inr (PList [])
           else map_sum id PList (collect (map (parse_value constants) (split_items content))))
        else (case dict_get constants value_str of
                Some v \<Rightarrow> Inr v
              | None \<Rightarrow> Inr (PStr value_str)))"
  by pat_completeness auto
termination
  apply (relation "measure (\<lambda>(c, s). length s)")
   apply simp
  subgoal for constants s value_str content x
    using split_items_length [of x content] length_strip [of "slice_inner value_str"]
      length_slice_inner [of value_str] length_unsemi [of "strip s"] length_strip [of s]
    by (cases "unsemi (strip s)") (auto simp: braced_def startswith_def)
  done

declare parse_value.simps [simp del]

subsection \<open>parse_dict\<close>

text \<open>
  What the body of a \<^verbatim>\<open>while\<close> loop does with one stripped, non-empty line: go on to
  the next line, return (\<open>Close\<close>), parse a nested dictionary from the next line on and
  bind it to a key (\<open>Open\<close>), or bind a key to the value of a text (\<open>Assign\<close>).
\<close>

datatype action = Skip | Close | Open string | Assign string string

text \<open>
  The \<^verbatim>\<open>if\<close> chain of \<^verbatim>\<open>parse_dict\<close>, lines 103 to 152, on \<^verbatim>\<open>line = lines[i].strip()\<close>.
  The test of line 124 is kept although a stripped line whose right-hand side is
  \<^verbatim>\<open>{\<close> ends with \<^verbatim>\<open>{\<close> and is taken at line 113.
\<close>

definition dict_line :: "string \<Rightarrow> action" where
  "dict_line line =
     (if line = [] then Skip
      else if line = ''}'' then Close
      else if CHR '':'' \<in> set line then
        (if endswith line CHR ''{'' then Open (strip (fst (split_first CHR '':'' line)))
         else
           (let key = strip (fst (split_first CHR '':'' line));
                value_part = strip (snd (split_first CHR '':'' line))
            in if value_part = ''{'' then Open key else Assign key value_part))
      else if CHR ''='' \<in> set line then
        (let key = strip (fst (split_first CHR ''='' line));
             value_part = strip (snd (split_first CHR ''='' line))
         in if value_part = ''{'' then Open key else Assign key value_part)
      else if endswith line CHR ''{'' then Open (strip (butlast line))
      else Skip)"

text \<open>
  \<^verbatim>\<open>parse_dict(lines, start_idx)\<close>, lines 95 to 154. The pair of \<^verbatim>\<open>lines\<close> and the index
  \<^verbatim>\<open>i\<close> is the list of the lines from \<^verbatim>\<open>i\<close> on, and the index returned is the list of
  the lines left. \<^verbatim>\<open>result\<close> is the dictionary built so far (empty at a call of the
  source). The parameter \<^verbatim>\<open>depth\<close> is never read and is left out.
\<close>

function parse_dict ::
  "pydict \<Rightarrow> string list \<Rightarrow> pydict \<Rightarrow> error + (pydict \<times> string list)" where
  "parse_dict constants [] result = Inr (result, [])"
| "parse_dict constants (l # ls) result =
     (case dict_line (strip l) of
        Skip \<Rightarrow> parse_dict constants ls result
      | Close \<Rightarrow> Inr (result, ls)
      | Open key \<Rightarrow>
          (case parse_dict constants ls [] of
             Inl e \<Rightarrow> Inl e
           | Inr (nested_dict, rest) \<Rightarrow>
               parse_dict constants rest (dict_set result key (PDict nested_dict)))
      | Assign key value_part \<Rightarrow>
          (case parse_value constants value_part of
             Inl e \<Rightarrow> Inl e
           | Inr v \<Rightarrow> parse_dict constants ls (dict_set result key v)))"
  by pat_completeness auto


lemma parse_dict_rest:
  "parse_dict_dom (constants, lines, result) \<Longrightarrow>
   parse_dict constants lines result = Inr (d, rest) \<Longrightarrow> length rest \<le> length lines"
proof (induction constants lines result arbitrary: d rest rule: parse_dict.pinduct)
  case (1 constants result)
  then show ?case by (simp add: parse_dict.psimps)
next
  case (2 constants l ls result)
  show ?case
  proof (cases "dict_line (strip l)")
    case Skip
    with 2 show ?thesis by (fastforce simp: parse_dict.psimps)
  next
    case Close
    with 2 show ?thesis by (simp add: parse_dict.psimps)
  next
    case (Open key)
    with 2 show ?thesis
      by (fastforce simp: parse_dict.psimps split: sum.splits prod.splits)
  next
    case (Assign key value_part)
    with 2 show ?thesis
      by (fastforce simp: parse_dict.psimps split: sum.splits)
  qed
qed

lemma parse_dict_total: "All parse_dict_dom"
  apply (relation "measure (\<lambda>(c, ls, r). length ls)")
      apply simp_all
  using parse_dict_rest by fastforce

termination parse_dict
  by (rule parse_dict_total)

lemma parse_dict_length:
  "parse_dict constants lines result = Inr (d, rest) \<Longrightarrow> length rest \<le> length lines"
  using parse_dict_rest parse_dict_total by simp

subsection \<open>The patterns of parse\<close>

text \<open>The text after a given beginning, if the text begins so.\<close>

fun after_prefix :: "string \<Rightarrow> string \<Rightarrow> string option" where
  "after_prefix [] s = Some s"
| "after_prefix (p # ps) [] = None"
| "after_prefix (p # ps) (c # cs) = (if p = c then after_prefix ps cs else None)"

definition name_start :: "char \<Rightarrow> bool" where
  "name_start c = (c \<in> set ''abcdefghijklmnopqrstuvwxyz'')"

definition name_char :: "char \<Rightarrow> bool" where
  "name_char c = (name_start c \<or> c \<in> set ''0123456789_'')"

text \<open>\<^verbatim>\<open>\s*;?\<close> at the end of both patterns: the text left after it.\<close>

definition after_tail :: "string \<Rightarrow> string" where
  "after_tail s =
     (let s' = dropWhile isspace s in if startswith s' CHR '';'' then tl s' else s')"

text \<open>
  A match of \<^verbatim>\<open>\(define\s+([a-z][a-z0-9_]*)\s+([^);]+)\)\s*;?\<close> at the beginning of \<open>s\<close>:
  group 1, group 2 and the text after the match. After \<^verbatim>\<open>(define\<close>, the white space
  and the name are the longest possible, since the next character must be of the other
  kind. \<open>run\<close> is the text from the end of the name to the first \<^verbatim>\<open>)\<close> or \<^verbatim>\<open>;\<close>: it
  must begin with white space, and a \<^verbatim>\<open>)\<close> must follow it. Group 2 is \<open>run\<close> without
  the white space it begins with; when \<open>run\<close> is white space only, the matcher gives
  one character back and group 2 is the last character of \<open>run\<close>.
\<close>

definition match_define :: "string \<Rightarrow> (string \<times> string \<times> string) option" where
  "match_define s =
     (case after_prefix ''(define'' s of
        None \<Rightarrow> None
      | Some s1 \<Rightarrow>
          (let s2 = dropWhile isspace s1 in
           if takeWhile isspace s1 = [] \<or> s2 = [] \<or> \<not> name_start (hd s2) then None
           else
             (let name = hd s2 # takeWhile name_char (tl s2);
                  s3 = dropWhile name_char (tl s2);
                  run = takeWhile (\<lambda>c. c \<noteq> CHR '')'' \<and> c \<noteq> CHR '';'') s3;
                  s4 = dropWhile (\<lambda>c. c \<noteq> CHR '')'' \<and> c \<noteq> CHR '';'') s3;
                  v = dropWhile isspace run
              in if takeWhile isspace run = [] \<or> length run < 2 \<or> \<not> startswith s4 CHR '')''
                 then None
                 else Some (name, (if v = [] then [last run] else v), after_tail (tl s4)))))"

text \<open>
  \<^verbatim>\<open>re.finditer\<close> with this pattern: the matches from left to right, each searched from
  the end of the one before, as pairs of group 1 and group 2.
\<close>

lemma after_prefix_length: "after_prefix p s = Some r \<Longrightarrow> length r + length p = length s"
  by (induction p s rule: after_prefix.induct) (auto split: if_splits)

lemma after_tail_length: "length (after_tail s) \<le> length s"
proof -
  have "length (dropWhile isspace s) \<le> length s" by (rule length_dropWhile_le)
  then show ?thesis by (auto simp: after_tail_def Let_def)
qed

lemma match_define_length:
  assumes "match_define s = Some (n, v, r)"
  shows "length r < length s"
proof -
  obtain s1 where s1: "after_prefix ''(define'' s = Some s1"
    using assms by (auto simp: match_define_def split: option.splits)
  define s2 where "s2 = dropWhile isspace s1"
  define s3 where "s3 = dropWhile name_char (tl s2)"
  define s4 where "s4 = dropWhile (\<lambda>c. c \<noteq> CHR '')'' \<and> c \<noteq> CHR '';'') s3"
  have r: "r = after_tail (tl s4)"
    using assms s1 unfolding match_define_def s2_def s3_def s4_def
    by (auto simp: Let_def split: if_splits)
  have "length r \<le> length (tl s4)" unfolding r by (rule after_tail_length)
  also have "\<dots> \<le> length s4" by simp
  also have "\<dots> \<le> length s3" unfolding s4_def by (rule length_dropWhile_le)
  also have "\<dots> \<le> length (tl s2)" unfolding s3_def by (rule length_dropWhile_le)
  also have "\<dots> \<le> length s2" by simp
  also have "\<dots> \<le> length s1" unfolding s2_def by (rule length_dropWhile_le)
  also have "\<dots> < length s" using after_prefix_length [OF s1] by simp
  finally show ?thesis .
qed

function find_defines :: "string \<Rightarrow> (string \<times> string) list" where
  "find_defines s =
     (if s = [] then []
      else (case match_define s of
              Some (name, g2, rest) \<Rightarrow> (name, g2) # find_defines rest
            | None \<Rightarrow> find_defines (tl s)))"
  by pat_completeness auto
termination
  by (relation "measure length") (auto dest: match_define_length)

declare find_defines.simps [simp del]

text \<open>
  A match of \<^verbatim>\<open>\(define[^)]*\)\s*;?\<close> at the beginning of \<open>s\<close>: the text after the match.
\<close>

definition match_form :: "string \<Rightarrow> string option" where
  "match_form s =
     (case after_prefix ''(define'' s of
        None \<Rightarrow> None
      | Some s1 \<Rightarrow>
          (let s2 = dropWhile (\<lambda>c. c \<noteq> CHR '')'') s1
           in if s2 = [] then None else Some (after_tail (tl s2))))"

lemma match_form_length:
  assumes "match_form s = Some r"
  shows "length r < length s"
proof -
  obtain s1 where s1: "after_prefix ''(define'' s = Some s1"
    using assms by (auto simp: match_form_def split: option.splits)
  define s2 where "s2 = dropWhile (\<lambda>c. c \<noteq> CHR '')'') s1"
  have r: "r = after_tail (tl s2)"
    using assms s1 unfolding match_form_def s2_def by (auto simp: Let_def split: if_splits)
  have "length r \<le> length (tl s2)" unfolding r by (rule after_tail_length)
  also have "\<dots> \<le> length s2" by simp
  also have "\<dots> \<le> length s1" unfolding s2_def by (rule length_dropWhile_le)
  also have "\<dots> < length s" using after_prefix_length [OF s1] by simp
  finally show ?thesis .
qed

text \<open>\<^verbatim>\<open>re.sub\<close> of this pattern by the empty string, line 171.\<close>

function strip_defines :: "string \<Rightarrow> string" where
  "strip_defines s =
     (if s = [] then []
      else (case match_form s of
              Some rest \<Rightarrow> strip_defines rest
            | None \<Rightarrow> hd s # strip_defines (tl s)))"
  by pat_completeness auto
termination
  by (relation "measure length") (auto dest: match_form_length)

declare strip_defines.simps [simp del]

subsection \<open>parse\<close>

text \<open>The loop of lines 165 to 169 over the matches, on \<^verbatim>\<open>self.constants\<close>.\<close>

fun define_loop :: "pydict \<Rightarrow> (string \<times> string) list \<Rightarrow> error + pydict" where
  "define_loop constants [] = Inr constants"
| "define_loop constants ((name, g2) # ms) =
     (case parse_value constants (strip g2) of
        Inl e \<Rightarrow> Inl e
      | Inr v \<Rightarrow> define_loop (dict_set constants name v) ms)"

text \<open>
  The \<^verbatim>\<open>if\<close> chain of the loop of \<^verbatim>\<open>parse\<close>, lines 179 to 211, on
  \<^verbatim>\<open>line = lines[i].strip()\<close>. It has no branch for a line \<^verbatim>\<open>}\<close>.
\<close>

definition root_line :: "string \<Rightarrow> action" where
  "root_line line =
     (if line = [] then Skip
      else if CHR '':'' \<in> set line \<and> endswith line CHR ''{'' then
        Open (strip (fst (split_first CHR '':'' line)))
      else if CHR ''='' \<in> set line \<and> endswith line CHR ''{'' then
        Open (strip (fst (split_first CHR ''='' line)))
      else if endswith line CHR ''{'' then Open (strip (butlast line))
      else if CHR '':'' \<in> set line then
        Assign (strip (fst (split_first CHR '':'' line))) (snd (split_first CHR '':'' line))
      else if CHR ''='' \<in> set line then
        Assign (strip (fst (split_first CHR ''='' line))) (snd (split_first CHR ''='' line))
      else Skip)"

text \<open>
  The \<^verbatim>\<open>while\<close> loop of \<^verbatim>\<open>parse\<close>, lines 175 to 211, on the lines from \<^verbatim>\<open>i\<close> on and
  \<^verbatim>\<open>self.data\<close>.
\<close>

function parse_root :: "pydict \<Rightarrow> string list \<Rightarrow> pydict \<Rightarrow> error + pydict" where
  "parse_root constants [] data = Inr data"
| "parse_root constants (l # ls) data =
     (case root_line (strip l) of
        Skip \<Rightarrow> parse_root constants ls data
      | Close \<Rightarrow> parse_root constants ls data
      | Open key \<Rightarrow>
          (case parse_dict constants ls [] of
             Inl e \<Rightarrow> Inl e
           | Inr (nested_dict, rest) \<Rightarrow>
               parse_root constants rest (dict_set data key (PDict nested_dict)))
      | Assign key value_part \<Rightarrow>
          (case parse_value constants value_part of
             Inl e \<Rightarrow> Inl e
           | Inr v \<Rightarrow> parse_root constants ls (dict_set data key v)))"
  by pat_completeness auto
termination
  by (relation "measure (\<lambda>(c, ls, r). length ls)")
    (auto dest: parse_dict_length simp: less_Suc_eq_le)

text \<open>Lines 214 to 216: the constants not among the keys of the data are added.\<close>

fun fold_constants :: "(string \<times> pyval) list \<Rightarrow> pydict \<Rightarrow> pydict" where
  "fold_constants [] data = data"
| "fold_constants ((key, v) # items) data =
     fold_constants items (if \<not> dict_has data key then dict_set data key v else data)"

text \<open>
  \<^verbatim>\<open>parse\<close>, lines 156 to 218, in its three steps: the constants of the cleaned text,
  the data of the lines left without the \<^verbatim>\<open>define\<close> forms, and the two together.
\<close>

definition parse_constants :: "string \<Rightarrow> error + pydict" where
  "parse_constants text = define_loop [] (find_defines (clean_text text))"

definition parse_data :: "pydict \<Rightarrow> string \<Rightarrow> error + pydict" where
  "parse_data constants text =
     parse_root constants (split_on NL (strip_defines (clean_text text))) []"

definition parse :: "string \<Rightarrow> error + pydict" where
  "parse text =
     (case parse_constants text of
        Inl e \<Rightarrow> Inl e
      | Inr constants \<Rightarrow>
          (case parse_data constants text of
             Inl e \<Rightarrow> Inl e
           | Inr data \<Rightarrow> Inr (fold_constants constants data)))"


section \<open>TOMLConverter\<close>

subsection \<open>escape_string\<close>

text \<open>The dictionary \<^verbatim>\<open>replacements\<close> of lines 225 to 233.\<close>

definition replacements :: "(char \<times> string) list" where
  "replacements =
     [(BSL, [BSL, BSL]),
      (DQ, [BSL, DQ]),
      (NL, [BSL, CHR ''n'']),
      (CHR 0x09, [BSL, CHR ''t'']),
      (CHR 0x0D, [BSL, CHR ''r'']),
      (CHR 0x08, [BSL, CHR ''b'']),
      (CHR 0x0C, [BSL, CHR ''f''])]"

text \<open>
  \<^verbatim>\<open>format(n, 'x')\<close>, the lowercase hexadecimal digits of \<open>n\<close>, and the formats
  \<^verbatim>\<open>04x\<close> and \<^verbatim>\<open>02x\<close>, which fill with zeros on the left up to the width.
\<close>

fun hex :: "nat \<Rightarrow> string" where
  "hex n = (if n < 16 then [''0123456789abcdef'' ! n]
            else hex (n div 16) @ [''0123456789abcdef'' ! (n mod 16)])"

declare hex.simps [simp del]

definition zfill :: "nat \<Rightarrow> string \<Rightarrow> string" where
  "zfill w s = replicate (w - length s) CHR ''0'' @ s"

text \<open>The loop of lines 236 to 242 on the list \<^verbatim>\<open>result\<close>, and the join of line 244.\<close>

fun escape_loop :: "string list \<Rightarrow> string \<Rightarrow> string list" where
  "escape_loop result [] = result"
| "escape_loop result (char # cs) =
     (case map_of replacements char of
        Some r \<Rightarrow> escape_loop (result @ [r]) cs
      | None \<Rightarrow>
          if of_char char < (32 :: nat)
          then escape_loop (result @ [[BSL, CHR ''u''] @ zfill 4 (hex (of_char char))]) cs
          else escape_loop (result @ [[char]]) cs)"

definition escape_string :: "string \<Rightarrow> string" where
  "escape_string v = join [] (escape_loop [] v)"

subsection \<open>str and repr\<close>

text \<open>\<^verbatim>\<open>str\<close> of an \<^verbatim>\<open>int\<close>.\<close>

fun str_nat :: "nat \<Rightarrow> string" where
  "str_nat n = (if n < 10 then [''0123456789'' ! n]
                else str_nat (n div 10) @ [''0123456789'' ! (n mod 10)])"

declare str_nat.simps [simp del]

definition str_int :: "int \<Rightarrow> string" where
  "str_int i = (if i < 0 then CHR ''-'' # str_nat (nat (- i)) else str_nat (nat i))"

text \<open>
  \<^verbatim>\<open>repr\<close> of a \<^verbatim>\<open>str\<close>: in single quotes, or in double quotes when the text has a
  single quote and no double quote; the quote and the backslash are escaped, tab,
  newline and carriage return are written \<^verbatim>\<open>\t\<close>, \<^verbatim>\<open>\n\<close>, \<^verbatim>\<open>\r\<close>, and the other
  characters that are not printable (below 32, 127 to 160, 173) are written \<^verbatim>\<open>\xNN\<close>.
\<close>

definition repr_char :: "char \<Rightarrow> char \<Rightarrow> string" where
  "repr_char quote c =
     (let n = of_char c :: nat in
      if c = quote \<or> c = BSL then [BSL, c]
      else if c = CHR 0x09 then [BSL, CHR ''t'']
      else if c = NL then [BSL, CHR ''n'']
      else if c = CHR 0x0D then [BSL, CHR ''r'']
      else if n < 32 \<or> n = 127 then [BSL, CHR ''x''] @ zfill 2 (hex n)
      else if n < 127 then [c]
      else if n \<le> 160 \<or> n = 173 then [BSL, CHR ''x''] @ zfill 2 (hex n)
      else [c])"

definition repr_str :: "string \<Rightarrow> string" where
  "repr_str s =
     (let quote = (if SQ \<in> set s \<and> DQ \<notin> set s then DQ else SQ)
      in [quote] @ concat (map (repr_char quote) s) @ [quote])"

text \<open>
  \<^verbatim>\<open>repr\<close> of a value, which is \<^verbatim>\<open>str\<close> of it for every value but a \<^verbatim>\<open>str\<close>. \<open>fstr\<close> gives
  the text of a float from the literal it was read from.
\<close>

fun py_repr :: "(string \<Rightarrow> string) \<Rightarrow> pyval \<Rightarrow> string" where
  "py_repr fstr (PStr s) = repr_str s"
| "py_repr fstr (PInt i) = str_int i"
| "py_repr fstr (PFloat l) = fstr l"
| "py_repr fstr (PBool b) = (if b then ''True'' else ''False'')"
| "py_repr fstr (PList xs) = ''['' @ join '', '' (map (py_repr fstr) xs) @ '']''"
| "py_repr fstr (PDict d) =
     ''{'' @ join '', '' (map (\<lambda>kv. repr_str (fst kv) @ '': '' @ py_repr fstr (snd kv)) d) @ ''}''"

subsection \<open>to_toml\<close>

text \<open>The loop of lines 257 to 261 on \<^verbatim>\<open>simple_keys\<close> and \<^verbatim>\<open>dict_keys\<close>.\<close>

fun is_dict :: "pyval \<Rightarrow> bool" where
  "is_dict (PDict d) = True"
| "is_dict v = False"

fun partition_keys :: "string list \<Rightarrow> string list \<Rightarrow> pydict \<Rightarrow> string list \<times> string list" where
  "partition_keys simple_keys dict_keys [] = (simple_keys, dict_keys)"
| "partition_keys simple_keys dict_keys ((key, v) # items) =
     (if is_dict v then partition_keys simple_keys (dict_keys @ [key]) items
      else partition_keys (simple_keys @ [key]) dict_keys items)"

text \<open>Line 287: an item of a list inside a list.\<close>

fun inner_item :: "(string \<Rightarrow> string) \<Rightarrow> pyval \<Rightarrow> string" where
  "inner_item fstr (PStr s) = [DQ] @ s @ [DQ]"
| "inner_item fstr i = py_repr fstr i"

text \<open>Lines 279 to 290: an item of a list.\<close>

fun list_item :: "(string \<Rightarrow> string) \<Rightarrow> pyval \<Rightarrow> string" where
  "list_item fstr (PStr s) = [DQ] @ escape_string s @ [DQ]"
| "list_item fstr (PBool b) = (if b then ''true'' else ''false'')"
| "list_item fstr (PInt i) = str_int i"
| "list_item fstr (PFloat l) = fstr l"
| "list_item fstr (PList item) = ''['' @ join '', '' (map (inner_item fstr) item) @ '']''"
| "list_item fstr (PDict d) = [DQ] @ py_repr fstr (PDict d) @ [DQ]"

text \<open>
  Lines 269 to 293: the text after \<^verbatim>\<open>key =\<close> for a value that is not a dictionary. The
  last equation is the \<^verbatim>\<open>else\<close> of line 292, which a key of \<^verbatim>\<open>simple_keys\<close> never takes
  with the values modelled.
\<close>

fun simple_value :: "(string \<Rightarrow> string) \<Rightarrow> pyval \<Rightarrow> string" where
  "simple_value fstr (PStr s) = [DQ] @ escape_string s @ [DQ]"
| "simple_value fstr (PBool b) = (if b then ''true'' else ''false'')"
| "simple_value fstr (PInt i) = str_int i"
| "simple_value fstr (PFloat l) = fstr l"
| "simple_value fstr (PList items) = ''['' @ join '', '' (map (list_item fstr) items) @ '']''"
| "simple_value fstr (PDict d) = [DQ] @ py_repr fstr (PDict d) @ [DQ]"

text \<open>
  The loop of lines 266 to 293 on \<^verbatim>\<open>lines\<close>. A key of the loop is a key of \<^verbatim>\<open>data\<close>, so
  that \<^verbatim>\<open>data[key]\<close> does not raise.
\<close>

fun simple_loop ::
  "(string \<Rightarrow> string) \<Rightarrow> pydict \<Rightarrow> string \<Rightarrow> string list \<Rightarrow> string list \<Rightarrow> string list" where
  "simple_loop fstr data indent_str lines [] = lines"
| "simple_loop fstr data indent_str lines (key # keys) =
     (case dict_get data key of
        None \<Rightarrow> simple_loop fstr data indent_str lines keys
      | Some v \<Rightarrow>
          simple_loop fstr data indent_str
            (lines @ [indent_str @ key @ '' = '' @ simple_value fstr v]) keys)"

lemma dict_get_size: "dict_get data key = Some v \<Longrightarrow> size v < size (PDict data)"
proof -
  assume "dict_get data key = Some v"
  then have "(key, v) \<in> set data" by (auto simp: dict_get_def dest: map_of_SomeD)
  then have "size_prod (\<lambda>_. 0) size (key, v) \<le> size_list (size_prod (\<lambda>_. 0) size) data"
    by (rule size_list_estimation') simp
  then show ?thesis by simp
qed

text \<open>
  \<^verbatim>\<open>to_toml(data, indent, path)\<close>, lines 247 to 311, and its loop of lines 296 to 309 on
  \<^verbatim>\<open>lines\<close>, in which \<^verbatim>\<open>data[key]\<close> is a dictionary.
\<close>

function to_toml :: "(string \<Rightarrow> string) \<Rightarrow> pydict \<Rightarrow> nat \<Rightarrow> string \<Rightarrow> string"
  and dict_loop ::
    "(string \<Rightarrow> string) \<Rightarrow> pydict \<Rightarrow> nat \<Rightarrow> string \<Rightarrow> string list \<Rightarrow> string list \<Rightarrow> string list"
where
  "to_toml fstr data indent path =
     (if data = [] then []
      else
        (let indent_str = concat (replicate indent ''  '');
             simple_keys = sort (fst (partition_keys [] [] data));
             dict_keys = sort (snd (partition_keys [] [] data));
             lines = simple_loop fstr data indent_str [] simple_keys
         in join [NL] (dict_loop fstr data indent path lines dict_keys)))"
| "dict_loop fstr data indent path lines [] = lines"
| "dict_loop fstr data indent path lines (key # keys) =
     (case dict_get data key of
        Some (PDict v) \<Rightarrow>
          (let indent_str = concat (replicate indent ''  '');
               full_path = (if path \<noteq> [] then path @ ''.'' @ key else key);
               header = (if indent = 0 then ''['' @ full_path @ '']''
                         else indent_str @ ''['' @ full_path @ '']'')
           in dict_loop fstr data indent path
                (lines @ [header, to_toml fstr v (indent + 1) full_path]) keys)
      | _ \<Rightarrow> dict_loop fstr data indent path lines keys)"
  by pat_completeness auto
termination
  apply (relation "inv_image (less_than <*lex*> less_than <*lex*> less_than)
      (\<lambda>x. case x of
         Inl (fstr, data, indent, path) \<Rightarrow> (size (PDict data), Suc 0, 0)
       | Inr (fstr, data, indent, path, lines, keys) \<Rightarrow> (size (PDict data), 0, length keys))")
  by (auto dest: dict_get_size)

declare to_toml.simps [simp del]

text \<open>The two functions of the core: \<^verbatim>\<open>parse\<close> above and \<^verbatim>\<open>to_toml(data)\<close>.\<close>

definition serialize :: "(string \<Rightarrow> string) \<Rightarrow> pydict \<Rightarrow> string" where
  "serialize fstr data = to_toml fstr data 0 []"


text \<open>
  Lines 319 to 322 of \<^verbatim>\<open>convert_file\<close>: \<^verbatim>\<open>parse\<close>, then \<^verbatim>\<open>to_toml\<close>, without reading the file.
\<close>

definition convert :: "(string \<Rightarrow> string) \<Rightarrow> string \<Rightarrow> error + string" where
  "convert fstr text =
     (case parse text of Inl e \<Rightarrow> Inl e | Inr data \<Rightarrow> Inr (serialize fstr data))"

section \<open>Texts of the examples\<close>

text \<open>The input of the end-to-end example and the tree \<^verbatim>\<open>parse\<close> returns for it.\<close>

definition example_text :: string where
  "example_text =
     ''(define port 8080)'' @ [NL] @
     ''server: {'' @ [NL] @
     ''  host: '' @ [DQ] @ ''localhost'' @ [DQ] @ [NL] @
     ''  port: port'' @ [NL] @
     ''  tags: {'' @ [DQ] @ ''a'' @ [DQ] @ '', '' @ [DQ] @ ''b'' @ [DQ] @ ''}'' @ [NL] @
     ''}''"

definition example_tree :: pydict where
  "example_tree =
     [(''server'', PDict [(''host'', PStr ''localhost''), (''port'', PInt 8080),
                          (''tags'', PList [PStr ''a'', PStr ''b''])]),
      (''port'', PInt 8080)]"

text \<open>
  A key bound to an array of two items: an array holding the string \<^verbatim>\<open>a\b\<close>, and the
  same string.
\<close>

definition nested_text :: string where
  "nested_text =
     ''k: {{'' @ [DQ, CHR ''a'', BSL, CHR ''b'', DQ] @ ''}, '' @
     [DQ, CHR ''a'', BSL, CHR ''b'', DQ] @ ''}''"

text \<open>Three lines, the second a closing brace alone.\<close>

definition brace_text :: string where
  "brace_text = ''a: 1'' @ [NL] @ ''}'' @ [NL] @ ''b: 2''"

section \<open>The claims' own words\<close>

text \<open>
  The escaping table as the specification words it, one character at a time: the seven
  named characters, then \<^verbatim>\<open>\u00XX\<close> with the two hexadecimal digits of a code point
  below 32, and every other character itself.
\<close>

definition hexdigit :: "nat \<Rightarrow> char" where
  "hexdigit n = ''0123456789abcdef'' ! n"

definition escape_char :: "char \<Rightarrow> string" where
  "escape_char c =
     (if c = BSL then [BSL, BSL]
      else if c = DQ then [BSL, DQ]
      else if c = NL then [BSL, CHR ''n'']
      else if c = CHR 0x09 then [BSL, CHR ''t'']
      else if c = CHR 0x0D then [BSL, CHR ''r'']
      else if c = CHR 0x08 then [BSL, CHR ''b'']
      else if c = CHR 0x0C then [BSL, CHR ''f'']
      else if of_char c < (32 :: nat) then
        [BSL, CHR ''u'', CHR ''0'', CHR ''0'',
         hexdigit (of_char c div 16), hexdigit (of_char c mod 16)]
      else [c])"

text \<open>Two constants, one of them also a key of the data.\<close>

definition const_text :: string where
  "const_text = ''(define port 8080)'' @ [NL] @ ''(define host h)'' @ [NL] @ ''port: 1''"

text \<open>A name as the pattern of \<^verbatim>\<open>define\<close> has it: \<^verbatim>\<open>[a-z][a-z0-9_]*\<close>.\<close>

definition is_name :: "string \<Rightarrow> bool" where
  "is_name m = (m \<noteq> [] \<and> name_start (hd m) \<and> list_all name_char (tl m))"

text \<open>
  Two texts of two \<^verbatim>\<open>define\<close> forms each: the value of the first is the name of the
  second.
\<close>

definition forward_text :: string where
  "forward_text = ''(define a b)'' @ [NL] @ ''(define b 5)''"

definition true_text :: string where
  "true_text = ''(define a true)'' @ [NL] @ ''(define true 5)''"

text \<open>
  What \<^verbatim>\<open>to_toml\<close> writes for one key of a table: the line of a key whose value is not
  a table, and the header and the text of a key whose value is a table, under the
  path of its ancestors joined by dots.
\<close>

definition dotted :: "string \<Rightarrow> string \<Rightarrow> string" where
  "dotted path key = (if path = [] then key else path @ ''.'' @ key)"

definition simple_entry :: "(string \<Rightarrow> string) \<Rightarrow> pydict \<Rightarrow> nat \<Rightarrow> string \<Rightarrow> string list" where
  "simple_entry fstr data indent key =
     (case dict_get data key of
        None \<Rightarrow> []
      | Some v \<Rightarrow> [concat (replicate indent ''  '') @ key @ '' = '' @ simple_value fstr v])"

definition dict_entry ::
  "(string \<Rightarrow> string) \<Rightarrow> pydict \<Rightarrow> nat \<Rightarrow> string \<Rightarrow> string \<Rightarrow> string list" where
  "dict_entry fstr data indent path key =
     (case dict_get data key of
        Some (PDict v) \<Rightarrow>
          [concat (replicate indent ''  '') @ ''['' @ dotted path key @ '']'',
           to_toml fstr v (Suc indent) (dotted path key)]
      | _ \<Rightarrow> [])"

text \<open>A table of three keys, not in the order of the keys.\<close>

definition order_tree :: pydict where
  "order_tree = [(''b'', PInt 1), (''t'', PDict [(''x'', PInt 2)]), (''a'', PBool True)]"

(*DEFS*)

section \<open>Properties\<close>

subsection \<open>Evaluation\<close>

lemmas toml_eval = serialize_def to_toml.simps str_int_def str_nat.simps escape_string_def
  replacements_def dict_get_def Let_def

lemma parse_example: "parse example_text = Inr example_tree"
  by code_simp

lemma serialize_example:
  "serialize fstr example_tree =
     ''port = 8080'' @ [NL] @
     ''[server]'' @ [NL] @
     ''  host = '' @ [DQ] @ ''localhost'' @ [DQ] @ [NL] @
     ''  port = 8080'' @ [NL] @
     ''  tags = ['' @ [DQ] @ ''a'' @ [DQ] @ '', '' @ [DQ] @ ''b'' @ [DQ] @ '']''"
  by (simp add: example_tree_def toml_eval)

lemma parse_nested:
  "parse nested_text =
     Inr [(''k'', PList [PList [PStr [CHR ''a'', BSL, CHR ''b'']],
                         PStr [CHR ''a'', BSL, CHR ''b'']])]"
  by code_simp

lemma dict_line_close: "dict_line ''}'' = Close"
  by (simp add: dict_line_def)

lemma root_line_close: "root_line ''}'' = Skip"
  by (simp add: root_line_def endswith_def)

subsection \<open>Helper lemmas\<close>

lemma hex_below_32:
  assumes "n < 32"
  shows "zfill 4 (hex n) = [CHR ''0'', CHR ''0'', hexdigit (n div 16), hexdigit (n mod 16)]"
proof (cases "n < 16")
  case True
  then show ?thesis by (simp add: hex.simps [of n] zfill_def hexdigit_def numeral_2_eq_2 numeral_3_eq_3)
next
  case False
  with assms have d: "n div 16 = Suc 0" by simp
  have h: "hex (Suc 0) = ''1''" by (simp add: hex.simps [of "Suc 0"])
  from False d h show ?thesis
    by (simp add: hex.simps [of n] zfill_def hexdigit_def numeral_2_eq_2 numeral_3_eq_3)
qed

lemma escape_step:
  "(case map_of replacements c of
      Some r \<Rightarrow> r
    | None \<Rightarrow> if of_char c < (32 :: nat) then [BSL, CHR ''u''] @ zfill 4 (hex (of_char c)) else [c])
   = escape_char c"
  by (simp add: replacements_def escape_char_def hex_below_32)

lemma escape_loop_map: "escape_loop result s = result @ map escape_char s"
proof (induction s arbitrary: result)
  case Nil
  show ?case by simp
next
  case (Cons c cs)
  show ?case
    using escape_step [of c] by (simp add: Cons.IH split: option.splits if_splits)
qed

lemma join_empty: "join [] xs = concat xs"
  by (induction xs rule: induct_list012) simp_all

lemma dict_get_set: "dict_get (dict_set d k v) k' = (if k' = k then Some v else dict_get d k')"
  by (induction d) (auto simp: dict_get_def)

lemma dict_get_Cons: "dict_get ((k, v) # d) n = (if n = k then Some v else dict_get d n)"
  by (simp add: dict_get_def)

lemma dict_has_get: "dict_has d k = (dict_get d k \<noteq> None)"
  by (simp add: dict_has_def dict_get_def)

lemma fold_constants_get:
  "dict_get (fold_constants items data) n =
     (case dict_get data n of Some d \<Rightarrow> Some d | None \<Rightarrow> dict_get items n)"
proof (induction items arbitrary: data)
  case Nil
  show ?case by (simp add: dict_get_def split: option.splits)
next
  case (Cons kv items)
  obtain key v where kv: "kv = (key, v)" by (cases kv)
  show ?case
    unfolding kv
    by (auto simp: Cons.IH dict_get_set dict_has_get dict_get_Cons split: option.splits)
qed

lemma name_char_facts:
  assumes "name_char c"
  shows "\<not> isspace c" "c \<noteq> CHR '';''" "c \<noteq> NL" "lower_char c = c"
  using assms unfolding name_char_def name_start_def isspace_def lower_char_def
  by auto

lemma name_start_facts:
  assumes "name_start c"
  shows "name_char c" "c \<noteq> DQ" "c \<noteq> SQ" "c \<noteq> CHR ''{''" "c \<noteq> CHR ''-''"
    "\<not> isdigit_char c" "\<not> isdecimal_char c"
  using assms unfolding name_char_def name_start_def isdigit_char_def isdecimal_char_def
  by auto

lemma strip_id:
  assumes "s \<noteq> []" "\<not> isspace (hd s)" "\<not> isspace (last s)"
  shows "strip s = s"
proof -
  have l: "lstrip s = s"
    using assms(1,2) by (cases s) (simp_all add: lstrip_def)
  have "dropWhile isspace (rev s) = rev s"
    using assms(1,3) by (cases "rev s") (simp_all add: last_rev [symmetric] hd_rev)
  then show ?thesis by (simp add: strip_def l rstrip_def)
qed

lemma is_name_chars:
  assumes "is_name m"
  shows "m \<noteq> []" "name_start (hd m)" "name_char (last m)" "list_all name_char m"
proof -
  from assms obtain c cs where m: "m = c # cs" and c: "name_start c" and cs: "list_all name_char cs"
    by (cases m) (auto simp: is_name_def)
  show "m \<noteq> []" "name_start (hd m)" using m c by simp_all
  show all: "list_all name_char m" using m c cs name_start_facts(1) by simp
  then show "name_char (last m)" using m by (metis last_in_set list.distinct(1) list_all_iff)
qed

lemma parse_value_name:
  assumes "is_name m" "m \<noteq> ''true''" "m \<noteq> ''false''" "dict_get constants m = None"
  shows "parse_value constants m = Inr (PStr m)"
proof -
  note n = is_name_chars [OF assms(1)]
  note h = name_start_facts [OF n(2)]
  note e = name_char_facts [OF n(3)]
  have s: "strip m = m"
    using n(1) name_char_facts(1) [OF h(1)] e(1) by (rule strip_id)
  have u: "unsemi m = m" using e(2) by (simp add: unsemi_def endswith_def)
  have q: "\<not> quoted m" using n(1) h(2,3) by (cases m) (auto simp: quoted_def startswith_def)
  have d: "\<not> isdigit m" using n(1) h(6) by (cases m) (auto simp: isdigit_def)
  have b: "\<not> float_body m"
    using n(1) h(5,7) by (cases m) (auto simp: float_body_def startswith_def)
  have f: "\<not> float_re m" using b e(3) by (simp add: float_re_def endswith_def)
  have "map lower_char m = m"
    using n(4) by (induction m) (simp_all add: name_char_facts(4))
  then have l: "lower m = m" by (simp add: lower_def)
  have br: "\<not> braced m" using n(1) h(4) by (cases m) (auto simp: braced_def startswith_def)
  show ?thesis
    using n(1) assms(2-4) by (simp add: parse_value.simps [of constants m] s u q d f l br)
qed

lemma define_loop_append:
  "define_loop constants (ms1 @ ms2) =
     (case define_loop constants ms1 of Inl e \<Rightarrow> Inl e | Inr c1 \<Rightarrow> define_loop c1 ms2)"
  by (induction constants ms1 rule: define_loop.induct) (auto split: sum.splits)

lemma define_loop_other:
  "define_loop constants ms = Inr c1 \<Longrightarrow> n \<notin> fst ` set ms \<Longrightarrow>
     dict_get c1 n = dict_get constants n"
  by (induction constants ms rule: define_loop.induct)
    (auto simp: dict_get_set split: sum.splits)

lemma find_forward: "find_defines (clean_text forward_text) = [] @ (''a'', ''b'') # [(''b'', ''5'')]"
  by code_simp

lemma partition_keys_filter:
  "partition_keys simple_keys dict_keys data =
     (simple_keys @ map fst (filter (\<lambda>kv. \<not> is_dict (snd kv)) data),
      dict_keys @ map fst (filter (\<lambda>kv. is_dict (snd kv)) data))"
  by (induction simple_keys dict_keys data rule: partition_keys.induct) simp_all

lemma simple_loop_step:
  "simple_loop fstr data (concat (replicate indent ''  '')) lines (key # keys) =
     simple_loop fstr data (concat (replicate indent ''  ''))
       (lines @ simple_entry fstr data indent key) keys"
  by (simp add: simple_entry_def split: option.splits)

lemma simple_loop_entries:
  "simple_loop fstr data (concat (replicate indent ''  '')) lines keys =
     lines @ concat (map (simple_entry fstr data indent) keys)"
proof (induction keys arbitrary: lines)
  case Nil
  show ?case by simp
next
  case (Cons key keys)
  show ?case by (simp only: simple_loop_step Cons.IH) simp
qed

lemma dict_loop_step:
  "dict_loop fstr data indent path lines (key # keys) =
     dict_loop fstr data indent path (lines @ dict_entry fstr data indent path key) keys"
  by (simp add: dict_entry_def dotted_def Let_def split: option.splits pyval.splits)

lemma dict_loop_entries:
  "dict_loop fstr data indent path lines keys =
     lines @ concat (map (dict_entry fstr data indent path) keys)"
proof (induction keys arbitrary: lines)
  case Nil
  show ?case by simp
next
  case (Cons key keys)
  show ?case by (simp only: dict_loop_step Cons.IH) simp
qed

lemma distinct_dict_get:
  "distinct (map fst data) \<Longrightarrow> (dict_get data k = Some v) = ((k, v) \<in> set data)"
  by (simp add: dict_get_def)

lemma keys_filter_set:
  assumes "distinct (map fst data)"
  shows "set (map fst (filter (\<lambda>kv. P (snd kv)) data)) =
           {k. \<exists>v. dict_get data k = Some v \<and> P v}"
proof -
  have "set (map fst (filter (\<lambda>kv. P (snd kv)) data)) = {k. \<exists>v. (k, v) \<in> set data \<and> P v}"
    by force
  then show ?thesis using assms by (simp add: distinct_dict_get)
qed

lemma keys_filter_distinct:
  "distinct (map fst data) \<Longrightarrow> distinct (map fst (filter Q data))"
  by (induction data) auto

lemma to_toml_entries:
  assumes "data \<noteq> []"
  shows "to_toml fstr data indent path =
     join [NL]
       (concat (map (simple_entry fstr data indent)
                  (sort (map fst (filter (\<lambda>kv. \<not> is_dict (snd kv)) data)))) @
        concat (map (dict_entry fstr data indent path)
                  (sort (map fst (filter (\<lambda>kv. is_dict (snd kv)) data)))))"
  using assms
  by (simp add: to_toml.simps [of fstr data] Let_def partition_keys_filter
      simple_loop_entries dict_loop_entries)

lemma entries_cong:
  assumes "dict_get data' = dict_get data"
  shows "simple_entry fstr data' indent = simple_entry fstr data indent"
    and "dict_entry fstr data' indent path = dict_entry fstr data indent path"
  using assms by (auto simp: simple_entry_def dict_entry_def fun_eq_iff)

lemma to_toml_insertion_order:
  assumes "distinct (map fst data)" and "distinct (map fst data')"
    and "dict_get data' = dict_get data"
  shows "to_toml fstr data' indent path = to_toml fstr data indent path"
proof (cases "data = []")
  case True
  have "data' = []"
  proof (cases data')
    case (Cons kv rest)
    then have "dict_get data' (fst kv) = Some (snd kv)" by (simp add: dict_get_def)
    with assms(3) True show ?thesis by (simp add: dict_get_def)
  qed simp
  with True show ?thesis by simp
next
  case False
  then obtain kv rest where "data = kv # rest" by (cases data) auto
  then have "dict_get data (fst kv) = Some (snd kv)" by (simp add: dict_get_def)
  with assms(3) have "dict_get data' (fst kv) = Some (snd kv)" by simp
  then have ne: "data' \<noteq> []" by (auto simp: dict_get_def)
  have k: "sort (map fst (filter (\<lambda>kv. P (snd kv)) data')) =
      sort (map fst (filter (\<lambda>kv. P (snd kv)) data))" for P
  proof (rule strict_sorted_equal)
    show "sorted_wrt (<) (sort (map fst (filter (\<lambda>kv. P (snd kv)) data')))"
      using assms(2) by (simp add: strict_sorted_iff keys_filter_distinct)
    show "sorted_wrt (<) (sort (map fst (filter (\<lambda>kv. P (snd kv)) data)))"
      using assms(1) by (simp add: strict_sorted_iff keys_filter_distinct)
    show "set (sort (map fst (filter (\<lambda>kv. P (snd kv)) data'))) =
        set (sort (map fst (filter (\<lambda>kv. P (snd kv)) data)))"
      using keys_filter_set [OF assms(1), of P] keys_filter_set [OF assms(2), of P] assms(3)
      by simp
  qed
  show ?thesis
    using k [of is_dict] k [of "\<lambda>v. \<not> is_dict v"]
    by (simp add: to_toml_entries [OF False] to_toml_entries [OF ne] entries_cong [OF assms(3)])
qed

(*LEMMAS*)

subsection \<open>The end-to-end example\<close>

text \<open>
  C1, as the code has it. For the input of the end-to-end example, \<^verbatim>\<open>parse\<close> followed by
  \<^verbatim>\<open>to_toml\<close> gives five lines: the constant \<^verbatim>\<open>port\<close>, which \<^verbatim>\<open>parse\<close> adds to the root
  table, comes first as \<^verbatim>\<open>port = 8080\<close>, then the header \<^verbatim>\<open>[server]\<close>, then the three
  keys of the section, each indented by two spaces.
\<close>

theorem example_output:
  "convert fstr example_text =
     Inr (''port = 8080'' @ [NL] @
          ''[server]'' @ [NL] @
          ''  host = '' @ [DQ] @ ''localhost'' @ [DQ] @ [NL] @
          ''  port = 8080'' @ [NL] @
          ''  tags = ['' @ [DQ] @ ''a'' @ [DQ] @ '', '' @ [DQ] @ ''b'' @ [DQ] @ '']'')"
  by (simp add: convert_def parse_example serialize_example)

text \<open>
  C1 as stated fails: the output is not the four unindented lines that begin with
  \<^verbatim>\<open>[server]\<close>, whatever the text of a float is.
\<close>

theorem example_output_counterexample:
  "\<forall>fstr. convert fstr example_text \<noteq>
     Inr (''[server]'' @ [NL] @
          ''host = '' @ [DQ] @ ''localhost'' @ [DQ] @ [NL] @
          ''port = 8080'' @ [NL] @
          ''tags = ['' @ [DQ] @ ''a'' @ [DQ] @ '', '' @ [DQ] @ ''b'' @ [DQ] @ '']'')"
  by (simp add: convert_def parse_example serialize_example)

subsection \<open>Strings inside nested arrays\<close>

text \<open>
  C3 fails on the code. In the output for \<open>nested_text\<close> the string \<^verbatim>\<open>a\b\<close> inside the
  inner array is written as it is, between double quotes, while the same string as an
  item of the outer array is written with its backslash doubled.
\<close>

theorem nested_string_unescaped:
  "convert fstr nested_text =
     Inr (''k = [['' @ [DQ, CHR ''a'', BSL, CHR ''b'', DQ] @ ''], '' @
          [DQ, CHR ''a'', BSL, BSL, CHR ''b'', DQ] @ '']'')"
  by (simp add: convert_def parse_nested toml_eval)

subsection \<open>A closing brace at root level\<close>

text \<open>
  C9, as the code has it. The loop of \<^verbatim>\<open>parse\<close> over the root lines skips a line that
  is a closing brace alone and goes on with the lines after it; it is \<^verbatim>\<open>parse_dict\<close>,
  which reads nested blocks only, that returns at such a line with the table built so
  far and the lines left.
\<close>

theorem root_close_skipped:
  "strip l = ''}'' \<Longrightarrow>
     parse_root constants (l # ls) data = parse_root constants ls data \<and>
     parse_dict constants (l # ls) result = Inr (result, ls)"
  by (simp add: root_line_close dict_line_close)

theorem root_close_skipped_witness:
  "strip '' } '' = ''}'' \<and>
   parse_root [] ['' } '', ''b: 2''] [(''a'', PInt 1)] = parse_root [] [''b: 2''] [(''a'', PInt 1)] \<and>
   parse_root [] [''b: 2''] [(''a'', PInt 1)] = Inr [(''a'', PInt 1), (''b'', PInt 2)] \<and>
   parse_dict [] ['' } '', ''b: 2''] [(''a'', PInt 1)] = Inr ([(''a'', PInt 1)], [''b: 2''])"
proof -
  have s: "strip '' } '' = ''}''" by code_simp
  have r: "parse_root [] [''b: 2''] [(''a'', PInt 1)] = Inr [(''a'', PInt 1), (''b'', PInt 2)]"
    by code_simp
  show ?thesis
    using root_close_skipped [OF s, of "[]" "[''b: 2'']" "[(''a'', PInt 1)]" "[(''a'', PInt 1)]"] s r
    by simp
qed

text \<open>
  C9 as stated fails: for the three lines of \<open>brace_text\<close> the key \<^verbatim>\<open>b\<close> of the line after
  the closing brace is in the root table.
\<close>

theorem root_close_counterexample:
  "parse brace_text = Inr [(''a'', PInt 1), (''b'', PInt 2)] \<and>
   parse brace_text \<noteq> Inr [(''a'', PInt 1)]"
  by code_simp

subsection \<open>A lone quote\<close>

text \<open>
  C10. For the text of one character that is a double quote, and for the one that is a
  single quote, \<^verbatim>\<open>parse_value\<close> returns the empty string, for every table of constants:
  the character passes both the starts-with and the ends-with test and \<^verbatim>\<open>[1:-1]\<close> leaves
  nothing.
\<close>

theorem lone_quote:
  "parse_value constants [DQ] = Inr (PStr []) \<and> parse_value constants [SQ] = Inr (PStr [])"
  by code_simp

subsection \<open>escape_string\<close>

text \<open>
  C7. \<^verbatim>\<open>escape_string\<close> translates each character of its input on its own, by the table
  of \<open>escape_char\<close>, and its result is the translations one after the other, in order.
\<close>

theorem escape_string_chars: "escape_string s = concat (map escape_char s)"
  by (simp add: escape_string_def escape_loop_map join_empty)


subsection \<open>Constants in the root table\<close>

text \<open>
  C2. When \<^verbatim>\<open>parse\<close> returns a root table, it has read a table of constants and a table
  of data from the text, and for every name \<open>n\<close> of a constant: if \<open>n\<close> is a key of the
  data, the root table has the value of the data at \<open>n\<close>; if not, it has the value of
  the constant at \<open>n\<close>. Nothing is asked of the text or of the use of the constant.
\<close>

theorem constants_folded:
  assumes "parse text = Inr root"
  shows "\<exists>constants data.
           parse_constants text = Inr constants \<and>
           parse_data constants text = Inr data \<and>
           (\<forall>n c. dict_get constants n = Some c \<longrightarrow>
              (case dict_get data n of
                 Some d \<Rightarrow> dict_get root n = Some d
               | None \<Rightarrow> dict_get root n = Some c))"
proof -
  from assms obtain constants data where
    c: "parse_constants text = Inr constants" and
    d: "parse_data constants text = Inr data" and
    r: "root = fold_constants constants data"
    by (auto simp: parse_def split: sum.splits)
  have "dict_get root n = Some d" if "dict_get data n = Some d" for n d
    using that by (simp add: r fold_constants_get)
  moreover have "dict_get root n = Some c"
    if "dict_get constants n = Some c" "dict_get data n = None" for n c
    using that by (simp add: r fold_constants_get)
  ultimately show ?thesis
    using c d by (auto split: option.splits)
qed

theorem constants_folded_witness:
  "parse const_text = Inr [(''port'', PInt 1), (''host'', PStr ''h'')] \<and>
   (\<exists>constants data.
      parse_constants const_text = Inr constants \<and>
      parse_data constants const_text = Inr data \<and>
      (\<forall>n c. dict_get constants n = Some c \<longrightarrow>
         (case dict_get data n of
            Some d \<Rightarrow> dict_get [(''port'', PInt 1), (''host'', PStr ''h'')] n = Some d
          | None \<Rightarrow> dict_get [(''port'', PInt 1), (''host'', PStr ''h'')] n = Some c)))"
proof -
  have p: "parse const_text = Inr [(''port'', PInt 1), (''host'', PStr ''h'')]" by code_simp
  show ?thesis using constants_folded [OF p] p by simp
qed

subsection \<open>Constants before identifiers\<close>

text \<open>
  C6. Let \<open>t\<close> be the token of a text \<open>s\<close>: \<open>s\<close> stripped, without a final \<^verbatim>\<open>;\<close>. If
  \<open>s\<close> is not blank and \<open>t\<close> is none of a quoted string, a digit string, a float, a
  boolean word, a brace array, then \<^verbatim>\<open>parse_value\<close> returns the value stored for \<open>t\<close>
  when \<open>t\<close> is a name of the table of constants, and the string \<open>t\<close> itself (the
  Identifier of the specification, a \<^verbatim>\<open>str\<close> in the code) only when it is not.
\<close>

theorem constant_outranks_identifier:
  assumes "strip s \<noteq> []" and "t = unsemi (strip s)"
    and "\<not> quoted t" and "\<not> isdigit t" and "\<not> float_re t"
    and "lower t \<noteq> ''true''" and "lower t \<noteq> ''false''" and "\<not> braced t"
  shows "parse_value constants s =
           Inr (case dict_get constants t of Some v \<Rightarrow> v | None \<Rightarrow> PStr t)"
  using assms by (simp add: parse_value.simps [of constants s] split: option.splits)


theorem constant_outranks_identifier_witness:
  "parse_value [(''port'', PInt 8080)] '' port; '' = Inr (PInt 8080) \<and>
   parse_value [(''port'', PInt 8080)] ''host'' = Inr (PStr ''host'')"
proof -
  have a: "strip '' port; '' \<noteq> []" "''port'' = unsemi (strip '' port; '')"
    "strip ''host'' \<noteq> []" "''host'' = unsemi (strip ''host'')"
    by code_simp+
  have b: "\<not> quoted ''port''" "\<not> isdigit ''port''" "\<not> float_re ''port''"
    "lower ''port'' \<noteq> ''true''" "lower ''port'' \<noteq> ''false''" "\<not> braced ''port''"
    by code_simp+
  have c: "\<not> quoted ''host''" "\<not> isdigit ''host''" "\<not> float_re ''host''"
    "lower ''host'' \<noteq> ''true''" "lower ''host'' \<noteq> ''false''" "\<not> braced ''host''"
    by code_simp+
  show ?thesis
    using constant_outranks_identifier [OF a(1,2) b, of "[(''port'', PInt 8080)]"]
      constant_outranks_identifier [OF a(3,4) c, of "[(''port'', PInt 8080)]"]
    by (simp add: dict_get_def)
qed

subsection \<open>The order of the define forms\<close>

text \<open>
  C5, as the code has it. The matches of the \<^verbatim>\<open>define\<close> pattern are taken from left to
  right, and the value of each is parsed with the constants of the matches before it
  only: when the matches are \<open>ms1\<close>, then \<open>(name, g2)\<close>, then \<open>ms2\<close>, and \<open>c1\<close> is
  the table after \<open>ms1\<close>, the table goes on from \<open>c1\<close> with \<open>name\<close> bound to the value
  of \<open>g2\<close> in \<open>c1\<close>. Hence a value that is a bare name which no earlier match binds,
  and which is not the word \<^verbatim>\<open>true\<close> or \<^verbatim>\<open>false\<close>, is bound as the string of that
  name, whatever \<open>ms2\<close> binds.
\<close>

theorem define_order:
  assumes "find_defines (clean_text text) = ms1 @ (name, g2) # ms2"
    and "define_loop [] ms1 = Inr c1"
  shows "parse_constants text =
           (case parse_value c1 (strip g2) of
              Inl e \<Rightarrow> Inl e
            | Inr v \<Rightarrow> define_loop (dict_set c1 name v) ms2) \<and>
         (is_name (strip g2) \<and> strip g2 \<notin> fst ` set ms1 \<and>
          strip g2 \<noteq> ''true'' \<and> strip g2 \<noteq> ''false'' \<longrightarrow>
            parse_constants text = define_loop (dict_set c1 name (PStr (strip g2))) ms2)"
proof -
  have a: "parse_constants text =
      (case parse_value c1 (strip g2) of
         Inl e \<Rightarrow> Inl e
       | Inr v \<Rightarrow> define_loop (dict_set c1 name v) ms2)"
    by (simp add: parse_constants_def assms define_loop_append)
  have "parse_value c1 (strip g2) = Inr (PStr (strip g2))"
    if "is_name (strip g2)" "strip g2 \<notin> fst ` set ms1"
      "strip g2 \<noteq> ''true''" "strip g2 \<noteq> ''false''"
  proof -
    have "dict_get c1 (strip g2) = dict_get [] (strip g2)"
      using assms(2) that(2) by (rule define_loop_other)
    then have "dict_get c1 (strip g2) = None" by (simp add: dict_get_def)
    with that show ?thesis by (simp add: parse_value_name)
  qed
  with a show ?thesis by simp
qed

theorem define_order_witness:
  "find_defines (clean_text forward_text) = [(''a'', ''b''), (''b'', ''5'')] \<and>
   parse_constants forward_text = Inr [(''a'', PStr ''b''), (''b'', PInt 5)]"
proof -
  have l: "define_loop [] [] = Inr []" by simp
  have n: "is_name (strip ''b'') \<and> strip ''b'' \<notin> fst ` set [] \<and>
      strip ''b'' \<noteq> ''true'' \<and> strip ''b'' \<noteq> ''false''"
    by code_simp
  have s: "strip ''b'' = ''b''" by code_simp
  have r: "define_loop (dict_set [] ''a'' (PStr ''b'')) [(''b'', ''5'')] =
      Inr [(''a'', PStr ''b''), (''b'', PInt 5)]"
    by code_simp
  from define_order [OF find_forward l] n
  have "parse_constants forward_text =
      define_loop (dict_set [] ''a'' (PStr (strip ''b''))) [(''b'', ''5'')]"
    by blast
  then show ?thesis using find_forward r by (simp only: s append_Nil simp_thms)
qed

text \<open>
  C5 as stated fails for a name that \<^verbatim>\<open>parse_value\<close> reads as a literal: in \<open>true_text\<close>
  the value of \<^verbatim>\<open>a\<close> is the bare name \<^verbatim>\<open>true\<close> of the later form, and \<^verbatim>\<open>a\<close> is bound to
  the boolean, not to the string \<^verbatim>\<open>true\<close>.
\<close>

theorem define_order_counterexample:
  "find_defines (clean_text true_text) = [(''a'', ''true''), (''true'', ''5'')] \<and>
   parse_constants true_text = Inr [(''a'', PBool True), (''true'', PInt 5)]"
  by code_simp


subsection \<open>The order of the keys\<close>

text \<open>
  C8. For a table with distinct keys that is not empty, at any indentation and path,
  the text of \<^verbatim>\<open>to_toml\<close> is the lines of a list \<open>ks\<close> of keys followed by the headers
  and texts of a list \<open>ds\<close> of keys, joined by newlines, where \<open>ks\<close> is the keys whose
  value is not a table and \<open>ds\<close> the keys whose value is a table, each list strictly
  ascending in the lexicographic order of strings. The text is the same for every
  insertion order of the same keys and values.
\<close>

theorem to_toml_order:
  assumes "distinct (map fst data)" and "data \<noteq> []"
  shows "(\<exists>ks ds.
            to_toml fstr data indent path =
              join [NL] (concat (map (simple_entry fstr data indent) ks) @
                         concat (map (dict_entry fstr data indent path) ds)) \<and>
            sorted_wrt (<) ks \<and> sorted_wrt (<) ds \<and>
            set ks = {k. \<exists>v. dict_get data k = Some v \<and> \<not> is_dict v} \<and>
            set ds = {k. \<exists>v. dict_get data k = Some v \<and> is_dict v}) \<and>
         (\<forall>data'. distinct (map fst data') \<and> dict_get data' = dict_get data \<longrightarrow>
            to_toml fstr data' indent path = to_toml fstr data indent path)"
proof -
  define ks where "ks = sort (map fst (filter (\<lambda>kv. \<not> is_dict (snd kv)) data))"
  define ds where "ds = sort (map fst (filter (\<lambda>kv. is_dict (snd kv)) data))"
  have "to_toml fstr data indent path =
      join [NL] (concat (map (simple_entry fstr data indent) ks) @
                 concat (map (dict_entry fstr data indent path) ds))"
    unfolding ks_def ds_def using assms(2) by (rule to_toml_entries)
  moreover have "sorted_wrt (<) ks" "sorted_wrt (<) ds"
    unfolding ks_def ds_def using assms(1)
    by (simp_all add: strict_sorted_iff keys_filter_distinct)
  moreover have "set ks = {k. \<exists>v. dict_get data k = Some v \<and> \<not> is_dict v}"
    unfolding ks_def using keys_filter_set [OF assms(1), of "\<lambda>v. \<not> is_dict v"] by simp
  moreover have "set ds = {k. \<exists>v. dict_get data k = Some v \<and> is_dict v}"
    unfolding ds_def using keys_filter_set [OF assms(1), of is_dict] by simp
  ultimately have "\<exists>ks ds.
      to_toml fstr data indent path =
        join [NL] (concat (map (simple_entry fstr data indent) ks) @
                   concat (map (dict_entry fstr data indent path) ds)) \<and>
      sorted_wrt (<) ks \<and> sorted_wrt (<) ds \<and>
      set ks = {k. \<exists>v. dict_get data k = Some v \<and> \<not> is_dict v} \<and>
      set ds = {k. \<exists>v. dict_get data k = Some v \<and> is_dict v}"
    by blast
  then show ?thesis
    using to_toml_insertion_order [OF assms(1)] by blast
qed

theorem to_toml_order_witness:
  "distinct (map fst order_tree) \<and> order_tree \<noteq> [] \<and>
   (\<exists>ks ds.
      to_toml (\<lambda>l. l) order_tree 0 [] =
        join [NL] (concat (map (simple_entry (\<lambda>l. l) order_tree 0) ks) @
                   concat (map (dict_entry (\<lambda>l. l) order_tree 0 []) ds)) \<and>
      sorted_wrt (<) ks \<and> sorted_wrt (<) ds \<and>
      set ks = {k. \<exists>v. dict_get order_tree k = Some v \<and> \<not> is_dict v} \<and>
      set ds = {k. \<exists>v. dict_get order_tree k = Some v \<and> is_dict v}) \<and>
   to_toml (\<lambda>l. l) order_tree 0 [] =
     ''a = true'' @ [NL] @ ''b = 1'' @ [NL] @ ''[t]'' @ [NL] @ ''  x = 2''"
proof -
  have d: "distinct (map fst order_tree)" and n: "order_tree \<noteq> []"
    by (simp_all add: order_tree_def)
  have t: "to_toml (\<lambda>l. l) order_tree 0 [] =
      ''a = true'' @ [NL] @ ''b = 1'' @ [NL] @ ''[t]'' @ [NL] @ ''  x = 2''"
    by (simp add: order_tree_def toml_eval)
  show ?thesis
    using to_toml_order [OF d n, of "\<lambda>l. l" 0 "[]"] d n t by blast
qed

(*CLAIMS*)

end
